theory Spec2Isabelle
  imports Complex_Main "HOL-Library.Word"
begin

section \<open>Exceptions and the camera wrapper\<close>

text \<open>
  Python exceptions are values. Every one of them is an instance of \<open>Exception\<close>, so an
  \<open>except Exception\<close> clause catches each constructor below.
\<close>

datatype exn = AttributeError | ZeroDivisionError | IndexError | KeyError | ValueError
  | TypeError | CameraError

text \<open>
  The camera wrapper (class \<open>CameraIds\<close>, module \<open>camera_ids\<close>) is used by the thread and
  by the widgets through its methods only. Its state is a type parameter \<open>'d\<close>, and its
  methods are the fields of a record that the models below take as an argument. A method
  that acts on the camera returns what the call gives (a value, or the exception it
  raises) together with the state of the wrapper after the call; a getter returns a value
  or an exception. The attribute \<open>camera_acquiring\<close> is read, never written, by the code
  modelled here. \<open>get_bits_per_pixel\<close> is the function of that name of the module
  \<open>camera_ids\<close>. Python floats are real numbers here.
\<close>

type_synonym ('r, 'd) meth = "'d \<Rightarrow> (exn + 'r) \<times> 'd"

record ('d, 'f) camera_api =
  camera_acquiring :: "'d \<Rightarrow> bool"
  init_camera :: "(unit, 'd) meth"
  alloc_memory :: "(unit, 'd) meth"
  start_acquisition :: "(unit, 'd) meth"
  get_image :: "('f, 'd) meth"
  stop_acquisition :: "(unit, 'd) meth"
  free_memory :: "(unit, 'd) meth"
  is_camera_connected :: "'d \<Rightarrow> exn + bool"
  get_cam_info :: "'d \<Rightarrow> exn + string"
  get_color_mode :: "'d \<Rightarrow> exn + string"
  get_bits_per_pixel :: "string \<Rightarrow> exn + nat"
  get_frame_rate :: "'d \<Rightarrow> exn + real"
  get_exposure :: "'d \<Rightarrow> exn + real"
  set_frame_rate :: "real \<Rightarrow> (unit, 'd) meth"
  set_exposure :: "real \<Rightarrow> (unit, 'd) meth"
  set_black_level :: "real \<Rightarrow> (unit, 'd) meth"

text \<open>The calls of camera methods, as the traces and call logs below record them.\<close>

datatype dev_call = InitCamera | AllocMemory | StartAcquisition | GetImage
  | StopAcquisition | FreeMemory | IsCameraConnected | GetCamInfo | GetColorMode
  | GetFrameRate | GetExposure | SetFrameRate real | SetExposure real | SetBlackLevel real

section \<open>camera\_thread.py: class CameraThread\<close>

text \<open>
  Two execution contexts work on one \<open>CameraThread\<close> object: the worker, which executes
  \<open>run\<close>, and the requester, which executes \<open>stop\<close>. Each of them is a small-step function
  with a program counter named after the source line it is about to execute; one step
  executes one line, which reads or writes the shared attributes at most once. The
  attributes are \<open>running\<close>, \<open>camera\<close> and \<open>stopping\<close>, as in \<open>__init__\<close>. The field
  \<open>trace\<close> records, in the order of execution, the calls of camera methods, the
  emissions of the signal \<open>image_acquired\<close>, the writes of the two flags and the
  \<open>print\<close> calls.
\<close>

datatype tid = Worker | Requester

datatype 'f event =
    Call tid dev_call
  | Emit 'f
  | SetRunning \<comment> \<open>line 61, the worker: \<open>self.running = True\<close>\<close>
  | ClearRunning \<comment> \<open>line 37, the requester: \<open>self.running = False\<close>\<close>
  | SetStopping \<comment> \<open>line 38, the requester: \<open>self.stopping = True\<close>\<close>
  | ClearStopping \<comment> \<open>line 65, the worker: \<open>self.stopping = False\<close>\<close>
  | Print tid string

datatype wpc = W57 | W58 | W59 | W60 | W61 | W62 | W63 | W64 | W65 | W67 exn | WReturn

datatype spc = S36 | S37 | S38 | S39 | S41 | S42 | S43 | S44 | S45 | SReturn | SRaise exn

record ('d, 'f) camera_thread =
  running :: bool
  camera :: "'d option"
  stopping :: bool
  image_array :: "'f option"
  wpc :: wpc
  spc :: spc
  trace :: "'f event list"

text \<open>\<open>__init__\<close> (lines 25--29), then \<open>set_camera\<close> (lines 31--33).\<close>

definition CameraThread :: "('d, 'f) camera_thread" where
  "CameraThread =
     \<lparr>running = False, camera = None, stopping = False, image_array = None,
      wpc = W57, spc = S36, trace = []\<rparr>"

definition set_camera :: "'d \<Rightarrow> ('d, 'f) camera_thread \<Rightarrow> ('d, 'f) camera_thread" where
  "set_camera c s = s\<lparr>camera := Some c\<rparr>"

text \<open>
  A method call of the worker, inside the \<open>try\<close> of \<open>run\<close>: an exception moves the worker
  to the handler at line 67. With no camera assigned the attribute access raises
  \<open>AttributeError\<close> before any method is called.
\<close>

definition worker_call ::
  "(unit, 'd) meth \<Rightarrow> dev_call \<Rightarrow> wpc \<Rightarrow> ('d, 'f) camera_thread \<Rightarrow> ('d, 'f) camera_thread"
where
  "worker_call m nm nxt s =
     (case camera s of
        None \<Rightarrow> s\<lparr>wpc := W67 AttributeError\<rparr>
      | Some c \<Rightarrow>
          (case m c of
             (Inl e, c') \<Rightarrow>
               s\<lparr>camera := Some c', trace := trace s @ [Call Worker nm], wpc := W67 e\<rparr>
           | (Inr _, c') \<Rightarrow>
               s\<lparr>camera := Some c', trace := trace s @ [Call Worker nm], wpc := nxt\<rparr>))"

text \<open>\<open>run\<close> (lines 47--67), one line per step.\<close>

definition run_step :: "('d, 'f) camera_api \<Rightarrow> ('d, 'f) camera_thread \<Rightarrow> ('d, 'f) camera_thread"
where
  "run_step A s =
     (case wpc s of
        W57 \<Rightarrow>
          (case camera s of
             None \<Rightarrow> s\<lparr>wpc := W67 AttributeError\<rparr>
           | Some c \<Rightarrow> if camera_acquiring A c = False then s\<lparr>wpc := W58\<rparr> else s\<lparr>wpc := W62\<rparr>)
      | W58 \<Rightarrow> worker_call (init_camera A) InitCamera W59 s
      | W59 \<Rightarrow> worker_call (alloc_memory A) AllocMemory W60 s
      | W60 \<Rightarrow> worker_call (start_acquisition A) StartAcquisition W61 s
      | W61 \<Rightarrow> s\<lparr>running := True, trace := trace s @ [SetRunning], wpc := W62\<rparr>
      | W62 \<Rightarrow> if running s then s\<lparr>wpc := W63\<rparr> else s\<lparr>wpc := WReturn\<rparr>
      | W63 \<Rightarrow>
          (case camera s of
             None \<Rightarrow> s\<lparr>wpc := W67 AttributeError\<rparr>
           | Some c \<Rightarrow>
               (case get_image A c of
                  (Inl e, c') \<Rightarrow>
                    s\<lparr>camera := Some c', trace := trace s @ [Call Worker GetImage], wpc := W67 e\<rparr>
                | (Inr f, c') \<Rightarrow>
                    s\<lparr>camera := Some c', image_array := Some f,
                      trace := trace s @ [Call Worker GetImage], wpc := W64\<rparr>))
      | W64 \<Rightarrow>
          (case image_array s of
             None \<Rightarrow> s\<lparr>wpc := W67 TypeError\<rparr>
           | Some f \<Rightarrow> s\<lparr>trace := trace s @ [Emit f], wpc := W65\<rparr>)
      | W65 \<Rightarrow> s\<lparr>stopping := False, trace := trace s @ [ClearStopping], wpc := W62\<rparr>
      | W67 e \<Rightarrow> s\<lparr>trace := trace s @ [Print Worker ''Thread Running - Exception''], wpc := WReturn\<rparr>
      | WReturn \<Rightarrow> s)"

text \<open>
  A method call of the requester: \<open>stop\<close> has no handler, so an exception leaves \<open>stop\<close>
  and reaches its caller.
\<close>

definition requester_call ::
  "(unit, 'd) meth \<Rightarrow> dev_call \<Rightarrow> spc \<Rightarrow> ('d, 'f) camera_thread \<Rightarrow> ('d, 'f) camera_thread"
where
  "requester_call m nm nxt s =
     (case camera s of
        None \<Rightarrow> s\<lparr>spc := SRaise AttributeError\<rparr>
      | Some c \<Rightarrow>
          (case m c of
             (Inl e, c') \<Rightarrow>
               s\<lparr>camera := Some c', trace := trace s @ [Call Requester nm], spc := SRaise e\<rparr>
           | (Inr _, c') \<Rightarrow>
               s\<lparr>camera := Some c', trace := trace s @ [Call Requester nm], spc := nxt\<rparr>))"

text \<open>
  \<open>stop\<close> (lines 35--45), one line per step. At line 39 the requester spins: while
  \<open>stopping\<close> is true a step leaves it where it is.
\<close>

definition stop_step :: "('d, 'f) camera_api \<Rightarrow> ('d, 'f) camera_thread \<Rightarrow> ('d, 'f) camera_thread"
where
  "stop_step A s =
     (case spc s of
        S36 \<Rightarrow>
          (case camera s of
             None \<Rightarrow> s\<lparr>spc := SRaise AttributeError\<rparr>
           | Some c \<Rightarrow> if camera_acquiring A c = True then s\<lparr>spc := S37\<rparr> else s\<lparr>spc := SReturn\<rparr>)
      | S37 \<Rightarrow> s\<lparr>running := False, trace := trace s @ [ClearRunning], spc := S38\<rparr>
      | S38 \<Rightarrow> s\<lparr>stopping := True, trace := trace s @ [SetStopping], spc := S39\<rparr>
      | S39 \<Rightarrow> if stopping s = True then s else s\<lparr>spc := S41\<rparr>
      | S41 \<Rightarrow> s\<lparr>trace := trace s @ [Print Requester ''Stop 1''], spc := S42\<rparr>
      | S42 \<Rightarrow> requester_call (stop_acquisition A) StopAcquisition S43 s
      | S43 \<Rightarrow> s\<lparr>trace := trace s @ [Print Requester ''Stop 2''], spc := S44\<rparr>
      | S44 \<Rightarrow> requester_call (free_memory A) FreeMemory S45 s
      | S45 \<Rightarrow> s\<lparr>trace := trace s @ [Print Requester ''Stop 3''], spc := SReturn\<rparr>
      | SReturn \<Rightarrow> s
      | SRaise e \<Rightarrow> s)"

text \<open>
  An interleaving is a schedule: the list of the contexts that take the next step, in
  order. \<open>exec\<close> runs a schedule.
\<close>

definition step :: "('d, 'f) camera_api \<Rightarrow> tid \<Rightarrow> ('d, 'f) camera_thread \<Rightarrow> ('d, 'f) camera_thread"
where
  "step A t s = (case t of Worker \<Rightarrow> run_step A s | Requester \<Rightarrow> stop_step A s)"

fun exec :: "('d, 'f) camera_api \<Rightarrow> tid list \<Rightarrow> ('d, 'f) camera_thread \<Rightarrow> ('d, 'f) camera_thread"
where
  "exec A [] s = s"
| "exec A (t # ts) s = exec A ts (step A t s)"


definition stop :: "('d, 'f) camera_api \<Rightarrow> nat \<Rightarrow> ('d, 'f) camera_thread \<Rightarrow> ('d, 'f) camera_thread"
where
  "stop A n s = exec A (replicate n Requester) s"

section \<open>camera\_ids\_widget0.py: the timer-driven widgets\<close>

subsection \<open>Arrays and the conversion for display\<close>

text \<open>
  A numpy array is its element type and the elements of its last axis. \<open>view(np.uint16)\<close>
  of an array of bytes pairs the bytes, low byte first, and raises \<open>ValueError\<close> when their
  number is odd; \<open>view(np.uint8)\<close> of an array of 16-bit samples gives their bytes. A view
  to the array's own type changes nothing.
\<close>

datatype ndarray = U8 "8 word list" | U16 "16 word list"

fun pair_bytes :: "8 word list \<Rightarrow> 16 word list" where
  "pair_bytes (lo # hi # bs) = (push_bit 8 (ucast hi) + ucast lo) # pair_bytes bs"
| "pair_bytes bs = []"

definition view_uint16 :: "ndarray \<Rightarrow> exn + 16 word list" where
  "view_uint16 a =
     (case a of
        U16 xs \<Rightarrow> Inr xs
      | U8 bs \<Rightarrow> if even (length bs) then Inr (pair_bytes bs) else Inl ValueError)"

definition view_uint8 :: "ndarray \<Rightarrow> 8 word list" where
  "view_uint8 a =
     (case a of
        U8 bs \<Rightarrow> bs
      | U16 xs \<Rightarrow> concat (map (\<lambda>x. [ucast x, ucast (drop_bit 8 x)]) xs))"

text \<open>
  \<open>image_array / (2 ** (nb_bits - 8))\<close> is numpy's true division, elementwise, with a
  floating-point result; the quotient of a 16-bit sample by a power of two is exact.
  \<open>astype(np.uint8)\<close> drops the fraction and keeps the low eight bits.
\<close>

definition true_divide :: "16 word list \<Rightarrow> nat \<Rightarrow> real list" where
  "true_divide xs d = map (\<lambda>v. real (unat v) / real d) xs"

definition astype_uint8 :: "real list \<Rightarrow> 8 word list" where
  "astype_uint8 qs = map (\<lambda>q. word_of_int \<lfloor>q\<rfloor>) qs"

text \<open>Lines 512--517 of \<open>get_disp_image\<close>: from the raw array to the array displayed.\<close>

definition to_disp :: "nat \<Rightarrow> ndarray \<Rightarrow> exn + 8 word list" where
  "to_disp nb_bits raw =
     (if nb_bits > 8 then
        (case view_uint16 raw of
           Inl e \<Rightarrow> Inl e
         | Inr xs \<Rightarrow> Inr (astype_uint8 (true_divide xs (2 ^ (nb_bits - 8)))))
      else Inr (view_uint8 raw))"

subsection \<open>Statements that may raise\<close>

type_synonym ('a, 's) act = "'s \<Rightarrow> (exn + 'a) \<times> 's"

definition ret :: "'a \<Rightarrow> ('a, 's) act" where
  "ret a s = (Inr a, s)"

definition raise :: "exn \<Rightarrow> ('a, 's) act" where
  "raise e s = (Inl e, s)"

definition seq :: "('a, 's) act \<Rightarrow> ('a \<Rightarrow> ('b, 's) act) \<Rightarrow> ('b, 's) act" where
  "seq m f s = (case m s of (Inl e, s') \<Rightarrow> (Inl e, s') | (Inr a, s') \<Rightarrow> f a s')"

text \<open>Python's \<open>int\<close> of a float drops the fraction, towards zero.\<close>

definition py_int :: "real \<Rightarrow> int" where
  "py_int x = (if 0 \<le> x then \<lfloor>x\<rfloor> else \<lceil>x\<rceil>)"

text \<open>\<open>str.split(':')\<close> and \<open>str.lower()\<close>, on ASCII strings.\<close>

fun split_colon :: "string \<Rightarrow> string list" where
  "split_colon [] = [[]]"
| "split_colon (x # xs) =
     (if x = CHR '':'' then [] # split_colon xs
      else (case split_colon xs of [] \<Rightarrow> [[x]] | y # ys \<Rightarrow> (x # y) # ys))"

definition lower_char :: "char \<Rightarrow> char" where
  "lower_char ch =
     (if 65 \<le> (of_char ch :: nat) \<and> (of_char ch :: nat) \<le> 90
      then (case ch of Char b0 b1 b2 b3 b4 b5 b6 b7 \<Rightarrow> Char b0 b1 b2 b3 b4 True b6 b7)
      else ch)"

definition lower :: "string \<Rightarrow> string" where
  "lower s = map lower_char s"

subsection \<open>The state of the widgets\<close>

text \<open>
  \<open>CameraIdsWidget\<close> and \<open>CameraIdsParamsWidget\<close> work on one camera object (\<open>self.camera\<close> of
  the first is \<open>self.parent.camera\<close> of the second), so one record holds the state of both:
  the camera, the timer \<open>main_timer\<close>, the array \<open>self.image_array\<close>, what the label
  \<open>camera_display\<close> shows, the values of the three sliders with the bounds of the exposure
  slider, and the check box. \<open>calls\<close> records the calls of camera methods and \<open>printed\<close>
  the \<open>print\<close> calls, in order.
\<close>

datatype 'p display = Text string | Pixmap 'p

record ('d, 'p) ids_gui =
  gui_camera :: "'d option"
  timer_active :: bool
  timer_interval :: int
  disp_array :: "8 word list option"
  camera_display :: "'p display"
  fps_slider :: real
  expotime_slider :: real
  expotime_min :: real
  expotime_max :: real
  blacklevel_slider :: real
  auto_update_check :: bool
  calls :: "dev_call list"
  printed :: "string list"

text \<open>
  A call of a method on \<open>self.camera\<close>: \<open>AttributeError\<close> when the attribute is \<open>None\<close>,
  otherwise the call is recorded and made.
\<close>

definition cam_call :: "dev_call \<Rightarrow> ('r, 'd) meth \<Rightarrow> ('r, ('d, 'p) ids_gui) act" where
  "cam_call nm m g =
     (case gui_camera g of
        None \<Rightarrow> (Inl AttributeError, g)
      | Some c \<Rightarrow>
          (case m c of (r, c') \<Rightarrow> (r, g\<lparr>gui_camera := Some c', calls := calls g @ [nm]\<rparr>)))"

definition cam_get :: "dev_call \<Rightarrow> ('d \<Rightarrow> exn + 'r) \<Rightarrow> ('r, ('d, 'p) ids_gui) act" where
  "cam_get nm f = cam_call nm (\<lambda>c. (f c, c))"

subsection \<open>class CameraIdsWidget\<close>

text \<open>\<open>is_connected\<close> (lines 409--419).\<close>

definition is_connected :: "('d, 'p) ids_gui \<Rightarrow> bool" where
  "is_connected g = (case gui_camera g of None \<Rightarrow> False | Some c \<Rightarrow> True)"

text \<open>\<open>stop_acquisition\<close> (lines 421--427).\<close>

definition widget_stop_acquisition ::
  "('d, 'f) camera_api \<Rightarrow> bool \<Rightarrow> (unit, ('d, 'p) ids_gui) act"
where
  "widget_stop_acquisition A keep_active g =
     (if is_connected g then
        (let g1 = (if timer_active g then g\<lparr>timer_active := False\<rparr> else g) in
         if keep_active = False then cam_call StopAcquisition (stop_acquisition A) g1
         else (Inr (), g1))
      else (Inr (), g))"

text \<open>\<open>start_acquisition\<close> (lines 429--437).\<close>

definition widget_start_acquisition :: "('d, 'f) camera_api \<Rightarrow> (unit, ('d, 'p) ids_gui) act"
where
  "widget_start_acquisition A g =
     (if is_connected g then
        seq (cam_call StartAcquisition (start_acquisition A)) (\<lambda>_.
        seq (cam_get GetFrameRate (get_frame_rate A)) (\<lambda>fps.
          if fps = 0 then raise ZeroDivisionError
          else (\<lambda>g'. (Inr (),
            g'\<lparr>timer_interval := py_int (1000 / fps + 10), timer_active := True\<rparr>)))) g
      else (Inr (), g))"

text \<open>\<open>get_disp_image\<close> (lines 504--520); \<open>None\<close> is what it returns with no connection.\<close>

definition get_disp_image ::
  "('d, ndarray) camera_api \<Rightarrow> (8 word list option, ('d, 'p) ids_gui) act"
where
  "get_disp_image A =
     seq (cam_get IsCameraConnected (is_camera_connected A)) (\<lambda>connected.
       if connected then
         seq (widget_start_acquisition A) (\<lambda>_.
         seq (cam_call GetImage (get_image A)) (\<lambda>raw.
         seq (cam_get GetColorMode (get_color_mode A)) (\<lambda>mode.
         seq (\<lambda>g. (get_bits_per_pixel A mode, g)) (\<lambda>nb_bits.
           (\<lambda>g. (map_sum id Some (to_disp nb_bits raw), g))))))
       else ret None)"

text \<open>
  \<open>refresh\<close> (lines 456--486). \<open>R\<close> stands for the conversion of the array to a pixmap
  (\<open>resize_image_ratio\<close> and \<open>array_to_qimage\<close> of \<open>lensepy\<close>, then \<open>QPixmap\<close>), which may
  raise. \<open>refresh_body\<close> is the body of the \<open>try\<close>; \<open>refresh\<close> adds the handler.
\<close>

definition refresh_body ::
  "('d, ndarray) camera_api \<Rightarrow> (8 word list option \<Rightarrow> exn + 'p) \<Rightarrow> (unit, ('d, 'p) ids_gui) act"
where
  "refresh_body A R g =
     (if is_connected g then
        seq (get_disp_image A) (\<lambda>img g1.
          (case R img of
             Inl e \<Rightarrow> (Inl e, g1\<lparr>disp_array := img\<rparr>)
           | Inr p \<Rightarrow> (Inr (), g1\<lparr>disp_array := img, camera_display := Pixmap p\<rparr>))) g
      else (Inr (), g\<lparr>camera_display := Text ''No Camera Connected''\<rparr>))"

definition refresh ::
  "('d, ndarray) camera_api \<Rightarrow> (8 word list option \<Rightarrow> exn + 'p) \<Rightarrow> ('d, 'p) ids_gui \<Rightarrow> ('d, 'p) ids_gui"
where
  "refresh A R g =
     (case refresh_body A R g of
        (Inl e, g') \<Rightarrow> g'\<lparr>printed := printed g' @ [''Exception - refresh'']\<rparr>
      | (Inr u, g') \<Rightarrow> g')"

text \<open>
  The timer: while it is active, each timeout calls \<open>refresh\<close> (line 342). \<open>ticks n\<close> is
  \<open>n\<close> timeouts in a row.
\<close>

definition tick ::
  "('d, ndarray) camera_api \<Rightarrow> (8 word list option \<Rightarrow> exn + 'p) \<Rightarrow> ('d, 'p) ids_gui \<Rightarrow> ('d, 'p) ids_gui"
where
  "tick A R g = (if timer_active g then refresh A R g else g)"

fun ticks ::
  "('d, ndarray) camera_api \<Rightarrow> (8 word list option \<Rightarrow> exn + 'p) \<Rightarrow> nat \<Rightarrow> ('d, 'p) ids_gui \<Rightarrow> ('d, 'p) ids_gui"
where
  "ticks A R 0 g = g"
| "ticks A R (Suc n) g = ticks A R n (tick A R g)"

subsection \<open>class SmallParamsDisplay and class CameraIdsParamsWidget\<close>

text \<open>
  \<open>SmallParamsDisplay.update_params\<close> (camera\_ids\_widget.py, lines 207--221) reads the
  camera and writes four labels; the labels are not part of the state here.
\<close>

definition small_update_params :: "('d, 'f) camera_api \<Rightarrow> (unit, ('d, 'p) ids_gui) act" where
  "small_update_params A =
     seq (cam_get GetCamInfo (get_cam_info A)) (\<lambda>name.
     seq (cam_get GetColorMode (get_color_mode A)) (\<lambda>colormode.
     seq (cam_get GetExposure (get_exposure A)) (\<lambda>expo.
     seq (cam_get GetFrameRate (get_frame_rate A)) (\<lambda>fps. ret ()))))"

text \<open>
  \<open>CameraIdsParamsWidget.update_params\<close> (lines 232--269). The three branches first
  (lines 241--255, 258--261 and 263--264), then the choice between them by the second
  field of the event (lines 240--266), then the method. A slider keeps the value and the
  bounds it is given.
\<close>

definition update_fps :: "('d, 'f) camera_api \<Rightarrow> (unit, ('d, 'p) ids_gui) act" where
  "update_fps A g =
     (let v = fps_slider g in
      seq (cam_get GetExposure (get_exposure A)) (\<lambda>e.
        let expo = e / 1000 in
        if v = 0 then raise ZeroDivisionError
        else
          (let fps_t = 1 / v * 1000;
               expo_val = real_of_int (py_int (fps_t - 1) * 1000) in
           seq (\<lambda>g1. (Inr (), g1\<lparr>expotime_min := 1, expotime_max := expo_val / 1000\<rparr>)) (\<lambda>_.
           seq (if expo > fps_t then
                  seq (cam_call (SetExposure expo_val) (set_exposure A expo_val)) (\<lambda>_ g2.
                    (Inr (), g2\<lparr>expotime_slider := expo_val\<rparr>))
                else ret ()) (\<lambda>_.
           cam_call (SetFrameRate v) (set_frame_rate A v))))) g)"

definition update_expo :: "('d, 'f) camera_api \<Rightarrow> (unit, ('d, 'p) ids_gui) act" where
  "update_expo A g =
     (let v = expotime_slider g * 1000 in cam_call (SetExposure v) (set_exposure A v) g)"

definition update_black :: "('d, 'f) camera_api \<Rightarrow> (unit, ('d, 'p) ids_gui) act" where
  "update_black A g =
     (let v = blacklevel_slider g in cam_call (SetBlackLevel v) (set_black_level A v) g)"

definition update_branch :: "('d, 'f) camera_api \<Rightarrow> string \<Rightarrow> (unit, ('d, 'p) ids_gui) act" where
  "update_branch A f1 =
     (if lower f1 = ''fps'' then update_fps A
      else if lower f1 = ''expo'' then update_expo A
      else if lower f1 = ''black'' then update_black A
      else (\<lambda>g. (Inr (), g\<lparr>printed := printed g @ [''Error'']\<rparr>)))"

definition update_params :: "('d, 'f) camera_api \<Rightarrow> string \<Rightarrow> (unit, ('d, 'p) ids_gui) act" where
  "update_params A event g =
     (case split_colon event of
        [] \<Rightarrow> (Inl IndexError, g)
      | f0 # rest \<Rightarrow>
          if lower f0 \<noteq> ''update'' \<and> lower f0 = ''slider'' \<and> auto_update_check g = False
          then (Inr (), g)
          else
            (case rest of
               [] \<Rightarrow> (Inl IndexError, g)
             | f1 # _ \<Rightarrow> seq (update_branch A f1) (\<lambda>_. small_update_params A) g))"


section \<open>A scripted camera\<close>

text \<open>
  A stand-in for the camera wrapper, used to run the models on concrete inputs. It keeps
  the flag \<open>camera_acquiring\<close>, which \<open>start_acquisition\<close> sets and \<open>stop_acquisition\<close>
  clears, the colour mode, the frame rate, the exposure time and the black level as the
  setters store them, and a script of what the successive calls of \<open>get_image\<close> give, a
  frame or an exception. With the script used up, \<open>get_image\<close> raises. The pixmap of an
  array is the array itself, and there is none for \<open>None\<close>.
\<close>

record 'f sim_camera =
  sim_acquiring :: bool
  sim_frames :: "(exn + 'f) list"
  sim_color_mode :: string
  sim_frame_rate :: real
  sim_exposure :: real
  sim_black_level :: real

definition sim_ok :: "(unit, 'f sim_camera) meth" where
  "sim_ok c = (Inr (), c)"

definition sim_get_image :: "('f, 'f sim_camera) meth" where
  "sim_get_image c =
     (case sim_frames c of
        [] \<Rightarrow> (Inl CameraError, c)
      | r # rs \<Rightarrow> (r, c\<lparr>sim_frames := rs\<rparr>))"

definition sim_bits_per_pixel :: "string \<Rightarrow> exn + nat" where
  "sim_bits_per_pixel m =
     (if m = ''Mono8'' then Inr 8 else if m = ''Mono10'' then Inr 10
      else if m = ''Mono12'' then Inr 12 else Inl KeyError)"

definition sim_api :: "('f sim_camera, 'f) camera_api" where
  "sim_api =
     \<lparr>camera_acquiring = sim_acquiring,
      init_camera = sim_ok,
      alloc_memory = sim_ok,
      start_acquisition = (\<lambda>c. (Inr (), c\<lparr>sim_acquiring := True\<rparr>)),
      get_image = sim_get_image,
      stop_acquisition = (\<lambda>c. (Inr (), c\<lparr>sim_acquiring := False\<rparr>)),
      free_memory = sim_ok,
      is_camera_connected = (\<lambda>c. Inr True),
      get_cam_info = (\<lambda>c. Inr ''sim''),
      get_color_mode = (\<lambda>c. Inr (sim_color_mode c)),
      get_bits_per_pixel = sim_bits_per_pixel,
      get_frame_rate = (\<lambda>c. Inr (sim_frame_rate c)),
      get_exposure = (\<lambda>c. Inr (sim_exposure c)),
      set_frame_rate = (\<lambda>v c. (Inr (), c\<lparr>sim_frame_rate := v\<rparr>)),
      set_exposure = (\<lambda>v c. (Inr (), c\<lparr>sim_exposure := v\<rparr>)),
      set_black_level = (\<lambda>v c. (Inr (), c\<lparr>sim_black_level := v\<rparr>))\<rparr>"

definition sim_camera :: "bool \<Rightarrow> (exn + 'f) list \<Rightarrow> string \<Rightarrow> real \<Rightarrow> 'f sim_camera" where
  "sim_camera acq script mode fps =
     \<lparr>sim_acquiring = acq, sim_frames = script, sim_color_mode = mode, sim_frame_rate = fps,
      sim_exposure = 10000, sim_black_level = 0\<rparr>"

definition sim_thread ::
  "bool \<Rightarrow> (exn + nat list) list \<Rightarrow> (nat list sim_camera, nat list) camera_thread"
where
  "sim_thread acq script = set_camera (sim_camera acq script ''Mono8'' 10) CameraThread"

definition sim_pixmap :: "8 word list option \<Rightarrow> exn + 8 word list" where
  "sim_pixmap img = (case img of None \<Rightarrow> Inl TypeError | Some a \<Rightarrow> Inr a)"

definition sim_gui :: "ndarray sim_camera \<Rightarrow> (ndarray sim_camera, 8 word list) ids_gui" where
  "sim_gui c =
     \<lparr>gui_camera = Some c, timer_active = True, timer_interval = 110, disp_array = None,
      camera_display = Text ''Test'', fps_slider = 10, expotime_slider = 10, expotime_min = 1,
      expotime_max = 99, blacklevel_slider = 0, auto_update_check = False, calls = [],
      printed = []\<rparr>"

section \<open>The stop handshake: notions for the proofs\<close>

text \<open>
  The three stages of the handshake, as they appear in a trace: the requester has cleared
  \<open>running\<close>; after that it has set \<open>stopping\<close>; after that the worker has cleared
  \<open>stopping\<close>. A trace is \<open>guarded\<close> when each camera call of the requester in it comes
  after the three stages.
\<close>

definition cleared :: "'f event list \<Rightarrow> bool" where
  "cleared tr \<longleftrightarrow> (\<exists>a b. tr = a @ ClearRunning # b)"

definition marked :: "'f event list \<Rightarrow> bool" where
  "marked tr \<longleftrightarrow> (\<exists>a b c. tr = a @ ClearRunning # b @ SetStopping # c)"

definition acknowledged :: "'f event list \<Rightarrow> bool" where
  "acknowledged tr \<longleftrightarrow> (\<exists>a b c d. tr = a @ ClearRunning # b @ SetStopping # c @ ClearStopping # d)"

definition guarded :: "'f event list \<Rightarrow> bool" where
  "guarded tr \<longleftrightarrow> (\<forall>pre m post. tr = pre @ Call Requester m # post \<longrightarrow> acknowledged pre)"

definition stop_inv :: "('d, 'f) camera_thread \<Rightarrow> bool" where
  "stop_inv s \<longleftrightarrow>
     guarded (trace s) \<and>
     (spc s = S38 \<longrightarrow> cleared (trace s)) \<and>
     (spc s = S39 \<longrightarrow> marked (trace s) \<and> (\<not> stopping s \<longrightarrow> acknowledged (trace s))) \<and>
     (spc s \<in> {S41, S42, S43, S44, S45} \<longrightarrow> acknowledged (trace s))"


definition past_setup :: "wpc \<Rightarrow> bool" where
  "past_setup p \<longleftrightarrow> p \<notin> {W57, W58, W59, W60, W61}"

text \<open>
  For a stop requested while the worker is in its loop: the worker is \<open>parked\<close> when it
  is at the loop test or has returned, with \<open>running\<close> false, so that it never calls
  \<open>get_image\<close> again; the requester is past its wait when it has seen \<open>stopping\<close>
  false at line 39, or is beyond, or has called a camera method. A trace is quiet after
  the requester's camera calls when no \<open>get_image\<close> of the worker follows one of them.
\<close>

definition quiet_after :: "'f event list \<Rightarrow> bool" where
  "quiet_after tr \<longleftrightarrow>
     (\<forall>pre m post. tr = pre @ Call Requester m # post \<longrightarrow> Call Worker GetImage \<notin> set post)"

definition no_requester_call :: "'f event list \<Rightarrow> bool" where
  "no_requester_call tr \<longleftrightarrow> (\<forall>m. Call Requester m \<notin> set tr)"

fun flag_cleared :: "spc \<Rightarrow> bool" where
  "flag_cleared S36 = False"
| "flag_cleared S37 = False"
| "flag_cleared (SRaise e) = False"
| "flag_cleared SReturn = False"
| "flag_cleared p = True"

fun wait_passed :: "spc \<Rightarrow> bool" where
  "wait_passed S41 = True"
| "wait_passed S42 = True"
| "wait_passed S43 = True"
| "wait_passed S44 = True"
| "wait_passed S45 = True"
| "wait_passed p = False"

definition parked :: "('d, 'f) camera_thread \<Rightarrow> bool" where
  "parked s \<longleftrightarrow> (wpc s = W62 \<or> wpc s = WReturn) \<and> \<not> running s"

definition past_wait :: "('d, 'f) camera_thread \<Rightarrow> bool" where
  "past_wait s \<longleftrightarrow>
     (spc s = S39 \<and> \<not> stopping s) \<or> wait_passed (spc s) \<or> \<not> no_requester_call (trace s)"

definition park_inv :: "('d, 'f) camera_thread \<Rightarrow> bool" where
  "park_inv s \<longleftrightarrow>
     past_setup (wpc s) \<and>
     (flag_cleared (spc s) \<longrightarrow> \<not> running s) \<and>
     (\<not> wait_passed (spc s) \<and> \<not> no_requester_call (trace s) \<longrightarrow>
        spc s = SReturn \<or> (\<exists>e. spc s = SRaise e)) \<and>
     (past_wait s \<longrightarrow> parked s) \<and>
     quiet_after (trace s)"

text \<open>
  For the widgets: a statement keeps the timer when it leaves the interval and the
  activity of \<open>main_timer\<close> as they are; it is steady when it leaves an active timer
  active and the connection as it is; it extends the call log when the calls it records
  come after those already there.
\<close>

definition keeps_timer :: "('a, ('d, 'p) ids_gui) act \<Rightarrow> bool" where
  "keeps_timer m \<longleftrightarrow>
     (\<forall>g. timer_interval (snd (m g)) = timer_interval g \<and>
          timer_active (snd (m g)) = timer_active g)"

definition steady :: "('a, ('d, 'p) ids_gui) act \<Rightarrow> bool" where
  "steady m \<longleftrightarrow>
     (\<forall>g. (timer_active g \<longrightarrow> timer_active (snd (m g))) \<and>
          is_connected (snd (m g)) = is_connected g)"


section \<open>CameraThread: the stop handshake\<close>

lemmas thread_defs = run_step_def stop_step_def worker_call_def requester_call_def step_def
  sim_api_def sim_ok_def sim_get_image_def sim_thread_def sim_camera_def set_camera_def
  CameraThread_def

lemma cleared_snoc: "cleared tr \<Longrightarrow> cleared (tr @ [e])"
proof -
  assume "cleared tr"
  then obtain a b where "tr = a @ ClearRunning # b"
    unfolding cleared_def by blast
  then have "tr @ [e] = a @ ClearRunning # (b @ [e])" by simp
  then show ?thesis unfolding cleared_def by blast
qed

lemma marked_snoc: "marked tr \<Longrightarrow> marked (tr @ [e])"
proof -
  assume "marked tr"
  then obtain a b c where "tr = a @ ClearRunning # b @ SetStopping # c"
    unfolding marked_def by blast
  then have "tr @ [e] = a @ ClearRunning # b @ SetStopping # (c @ [e])" by simp
  then show ?thesis unfolding marked_def by blast
qed

lemma acknowledged_snoc: "acknowledged tr \<Longrightarrow> acknowledged (tr @ [e])"
proof -
  assume "acknowledged tr"
  then obtain a b c d where "tr = a @ ClearRunning # b @ SetStopping # c @ ClearStopping # d"
    unfolding acknowledged_def by blast
  then have "tr @ [e] = a @ ClearRunning # b @ SetStopping # c @ ClearStopping # (d @ [e])"
    by simp
  then show ?thesis unfolding acknowledged_def by blast
qed

lemma cleared_intro: "cleared (tr @ [ClearRunning])"
proof -
  have "tr @ [ClearRunning] = tr @ ClearRunning # []" by simp
  then show ?thesis unfolding cleared_def by blast
qed

lemma marked_intro: "cleared tr \<Longrightarrow> marked (tr @ [SetStopping])"
proof -
  assume "cleared tr"
  then obtain a b where "tr = a @ ClearRunning # b"
    unfolding cleared_def by blast
  then have "tr @ [SetStopping] = a @ ClearRunning # b @ SetStopping # []" by simp
  then show ?thesis unfolding marked_def by blast
qed

lemma acknowledged_intro: "marked tr \<Longrightarrow> acknowledged (tr @ [ClearStopping])"
proof -
  assume "marked tr"
  then obtain a b c where "tr = a @ ClearRunning # b @ SetStopping # c"
    unfolding marked_def by blast
  then have "tr @ [ClearStopping] = a @ ClearRunning # b @ SetStopping # c @ ClearStopping # []"
    by simp
  then show ?thesis unfolding acknowledged_def by blast
qed

lemma snoc_eq_split:
  "tr @ [e] = pre @ x # post \<longleftrightarrow>
     (post = [] \<and> tr = pre \<and> e = x) \<or> (\<exists>post'. post = post' @ [e] \<and> tr = pre @ x # post')"
  by (cases post rule: rev_cases) auto

lemma guarded_snoc_other:
  "guarded tr \<Longrightarrow> \<forall>m. e \<noteq> Call Requester m \<Longrightarrow> guarded (tr @ [e])"
  unfolding guarded_def by (auto simp: snoc_eq_split)

lemma guarded_snoc_acknowledged:
  "guarded tr \<Longrightarrow> acknowledged tr \<Longrightarrow> guarded (tr @ [e])"
  unfolding guarded_def by (auto simp: snoc_eq_split)

lemma run_step_spc: "spc (run_step A s) = spc s"
  by (simp add: run_step_def worker_call_def split: wpc.splits option.splits prod.splits sum.splits)

lemma run_step_trace:
  "trace (run_step A s) = trace s \<or>
   (\<exists>e. trace (run_step A s) = trace s @ [e] \<and> (\<forall>m. e \<noteq> Call Requester m) \<and>
      (stopping (run_step A s) \<noteq> stopping s \<longrightarrow> e = ClearStopping))"
  by (simp add: run_step_def worker_call_def split: wpc.splits option.splits prod.splits sum.splits)

lemma run_step_stopping:
  "trace (run_step A s) = trace s \<Longrightarrow> stopping (run_step A s) = stopping s"
  by (simp add: run_step_def worker_call_def split: wpc.splits option.splits prod.splits sum.splits)

lemma run_step_stopping_False:
  "\<not> stopping s \<Longrightarrow> \<not> stopping (run_step A s)"
  by (simp add: run_step_def worker_call_def split: wpc.splits option.splits prod.splits sum.splits)


lemma stop_inv_run_step:
  assumes "stop_inv s"
  shows "stop_inv (run_step A s)"
proof -
  let ?s' = "run_step A s"
  consider (same) "trace ?s' = trace s" "stopping ?s' = stopping s"
    | (snoc) e where "trace ?s' = trace s @ [e]" "\<forall>m. e \<noteq> Call Requester m"
        "stopping ?s' \<noteq> stopping s \<longrightarrow> e = ClearStopping"
    using run_step_trace [of A s] run_step_stopping [of A s] by blast
  then show ?thesis
  proof cases
    case same
    then show ?thesis using assms by (simp add: stop_inv_def run_step_spc)
  next
    case snoc
    have g: "guarded (trace ?s')"
      using assms snoc(1,2) by (simp add: stop_inv_def guarded_snoc_other)
    have c: "spc s = S38 \<Longrightarrow> cleared (trace ?s')"
      using assms snoc(1) by (simp add: stop_inv_def cleared_snoc)
    have m: "spc s = S39 \<Longrightarrow> marked (trace ?s')"
      using assms snoc(1) by (simp add: stop_inv_def marked_snoc)
    have a: "acknowledged (trace ?s')" if "spc s = S39" "\<not> stopping ?s'"
    proof (cases "stopping s")
      case True
      with that(2) snoc(3) have "e = ClearStopping" by blast
      moreover have "marked (trace s)" using assms that(1) by (simp add: stop_inv_def)
      ultimately show ?thesis using snoc(1) by (simp add: acknowledged_intro)
    next
      case False
      then have "acknowledged (trace s)" using assms that(1) by (simp add: stop_inv_def)
      then show ?thesis using snoc(1) by (simp add: acknowledged_snoc)
    qed
    have k: "spc s \<in> {S41, S42, S43, S44, S45} \<Longrightarrow> acknowledged (trace ?s')"
      using assms snoc(1) by (simp add: stop_inv_def acknowledged_snoc)
    show ?thesis
      unfolding stop_inv_def run_step_spc using g c m a k by blast
  qed
qed

lemma requester_call_inv:
  assumes "stop_inv s" and "acknowledged (trace s)" and "nxt \<in> {S43, S45}"
  shows "stop_inv (requester_call m nm nxt s)"
proof (cases "camera s")
  case None
  then show ?thesis using assms(1) by (simp add: requester_call_def stop_inv_def)
next
  case (Some c)
  obtain r c' where r: "m c = (r, c')" by (cases "m c")
  have g: "guarded (trace s @ [Call Requester nm])"
    using assms(1,2) by (simp add: stop_inv_def guarded_snoc_acknowledged)
  have a: "acknowledged (trace s @ [Call Requester nm])"
    using assms(2) by (rule acknowledged_snoc)
  show ?thesis
    using Some r g a assms(3) by (cases r) (auto simp: requester_call_def stop_inv_def)
qed

lemma stop_inv_stop_step:
  assumes "stop_inv s"
  shows "stop_inv (stop_step A s)"
proof (cases "spc s")
  case S36
  then show ?thesis using assms
    by (simp add: stop_step_def stop_inv_def split: option.splits)
next
  case S37
  then show ?thesis using assms
    by (simp add: stop_step_def stop_inv_def guarded_snoc_other cleared_intro)
next
  case S38
  then show ?thesis using assms
    by (simp add: stop_step_def stop_inv_def guarded_snoc_other marked_intro)
next
  case S39
  then show ?thesis using assms
    by (simp add: stop_step_def stop_inv_def)
next
  case S41
  then show ?thesis using assms
    by (simp add: stop_step_def stop_inv_def guarded_snoc_other acknowledged_snoc)
next
  case S42
  then show ?thesis using assms requester_call_inv [of s S43 "stop_acquisition A" StopAcquisition]
    by (simp add: stop_step_def stop_inv_def)
next
  case S43
  then show ?thesis using assms
    by (simp add: stop_step_def stop_inv_def guarded_snoc_other acknowledged_snoc)
next
  case S44
  then show ?thesis using assms requester_call_inv [of s S45 "free_memory A" FreeMemory]
    by (simp add: stop_step_def stop_inv_def)
next
  case S45
  then show ?thesis using assms
    by (simp add: stop_step_def stop_inv_def guarded_snoc_other acknowledged_snoc)
next
  case SReturn
  then show ?thesis using assms by (simp add: stop_step_def)
next
  case (SRaise e)
  then show ?thesis using assms by (simp add: stop_step_def)
qed

lemma stop_inv_exec: "stop_inv s \<Longrightarrow> stop_inv (exec A sched s)"
proof (induction sched arbitrary: s)
  case Nil
  then show ?case by simp
next
  case (Cons t ts)
  have "stop_inv (step A t s)"
    using Cons.prems by (cases t) (simp_all add: step_def stop_inv_run_step stop_inv_stop_step)
  then show ?case using Cons.IH by simp
qed

lemma handshake_before_requester_call:
  assumes "spc s = S36" and "trace s = []"
    and "trace (exec A sched s) = pre @ Call Requester m # post"
  shows "\<exists>a b c d. pre = a @ ClearRunning # b @ SetStopping # c @ ClearStopping # d"
proof -
  have "stop_inv s"
    using assms(1,2) by (simp add: stop_inv_def guarded_def)
  then have "guarded (trace (exec A sched s))"
    using stop_inv_exec [of s A sched] by (simp add: stop_inv_def)
  with assms(3) show ?thesis
    unfolding guarded_def acknowledged_def by blast
qed

lemma quiet_after_snoc_other:
  "quiet_after tr \<Longrightarrow> e \<noteq> Call Worker GetImage \<Longrightarrow> quiet_after (tr @ [e])"
  unfolding quiet_after_def by (auto simp: snoc_eq_split)

lemma quiet_after_snoc_first:
  "no_requester_call tr \<Longrightarrow> quiet_after (tr @ [e])"
  unfolding quiet_after_def no_requester_call_def by (auto simp: snoc_eq_split)

lemma no_requester_call_snoc:
  "no_requester_call tr \<Longrightarrow> \<forall>m. e \<noteq> Call Requester m \<Longrightarrow> no_requester_call (tr @ [e])"
  unfolding no_requester_call_def by auto

lemma run_step_parked: "parked s \<Longrightarrow> run_step A s = s\<lparr>wpc := WReturn\<rparr>"
  unfolding parked_def by (auto simp: run_step_def)

lemma run_step_in_loop:
  assumes "past_setup (wpc s)"
  shows "past_setup (wpc (run_step A s)) \<and> running (run_step A s) = running s \<and>
    (trace (run_step A s) = trace s \<and> stopping (run_step A s) = stopping s \<or>
     (\<exists>e. trace (run_step A s) = trace s @ [e] \<and> (\<forall>m. e \<noteq> Call Requester m) \<and>
        (stopping (run_step A s) = stopping s \<or>
         \<not> stopping (run_step A s) \<and> wpc (run_step A s) = W62)))"
proof (cases "wpc s")
  case W62
  then show ?thesis by (simp add: run_step_def past_setup_def)
next
  case W63
  then show ?thesis
    by (simp add: run_step_def past_setup_def split: option.splits prod.splits sum.splits)
next
  case W64
  then show ?thesis
    by (simp add: run_step_def past_setup_def split: option.splits)
next
  case W65
  then show ?thesis by (simp add: run_step_def past_setup_def)
next
  case (W67 e)
  then show ?thesis by (simp add: run_step_def past_setup_def)
next
  case WReturn
  then show ?thesis by (simp add: run_step_def past_setup_def)
qed (use assms in \<open>simp_all add: past_setup_def\<close>)

lemma park_inv_run_step:
  assumes "park_inv s"
  shows "park_inv (run_step A s)"
proof (cases "past_wait s")
  case True
  then have p: "parked s" using assms by (simp add: park_inv_def)
  then have r: "run_step A s = s\<lparr>wpc := WReturn\<rparr>" by (rule run_step_parked)
  have "parked (s\<lparr>wpc := WReturn\<rparr>)" using p by (simp add: parked_def)
  moreover have "past_setup (wpc (s\<lparr>wpc := WReturn\<rparr>))" by (simp add: past_setup_def)
  ultimately show ?thesis
    using assms unfolding r park_inv_def past_wait_def by simp
next
  case False
  let ?s' = "run_step A s"
  have ps: "past_setup (wpc s)" using assms by (simp add: park_inv_def)
  have nr: "no_requester_call (trace s)" and nw: "\<not> wait_passed (spc s)"
    and ns: "spc s = S39 \<longrightarrow> stopping s"
    using False by (simp_all add: past_wait_def)
  from run_step_in_loop [OF ps, of A]
  have 1: "past_setup (wpc ?s')" and 2: "running ?s' = running s"
    and 3: "trace ?s' = trace s \<and> stopping ?s' = stopping s \<or>
     (\<exists>e. trace ?s' = trace s @ [e] \<and> (\<forall>m. e \<noteq> Call Requester m) \<and>
        (stopping ?s' = stopping s \<or> \<not> stopping ?s' \<and> wpc ?s' = W62))"
    by simp_all
  have sp: "spc ?s' = spc s" by (rule run_step_spc)
  have nr': "no_requester_call (trace ?s')"
    using 3 nr no_requester_call_snoc [of "trace s"] by auto
  have q: "quiet_after (trace ?s')"
  proof -
    have "quiet_after (trace s)" using assms by (simp add: park_inv_def)
    then show ?thesis using 3 nr quiet_after_snoc_first [of "trace s"] by auto
  qed
  have i2: "flag_cleared (spc ?s') \<longrightarrow> \<not> running ?s'"
    using assms 2 sp by (simp add: park_inv_def)
  have pw: "parked ?s'" if "past_wait ?s'"
  proof -
    from that nr' sp nw have k: "spc s = S39" "\<not> stopping ?s'"
      by (simp_all add: past_wait_def)
    with ns have "stopping s" by simp
    with k(2) 3 have "wpc ?s' = W62" by auto
    moreover have "\<not> running ?s'" using i2 k(1) sp by simp
    ultimately show ?thesis by (simp add: parked_def)
  qed
  show ?thesis
    unfolding park_inv_def using 1 i2 nr' q pw by blast
qed

lemma stop_step_wpc: "wpc (stop_step A s) = wpc s"
  by (simp add: stop_step_def requester_call_def split: spc.splits option.splits prod.splits sum.splits)

lemma requester_call_park:
  assumes "park_inv s" and "wait_passed (spc s)" and "wait_passed nxt"
  shows "park_inv (requester_call m nm nxt s)"
proof -
  have p: "parked s" using assms(1,2) by (simp add: park_inv_def past_wait_def)
  have q0: "quiet_after (trace s)" using assms(1) by (simp add: park_inv_def)
  have ps: "past_setup (wpc s)" using assms(1) by (simp add: park_inv_def)
  show ?thesis
  proof (cases "camera s")
    case None
    then have r: "requester_call m nm nxt s = s\<lparr>spc := SRaise AttributeError\<rparr>"
      by (simp add: requester_call_def)
    have "parked (s\<lparr>spc := SRaise AttributeError\<rparr>)" using p by (simp add: parked_def)
    then show ?thesis
      unfolding r park_inv_def using ps q0 by simp
  next
    case (Some c)
    obtain r c' where r: "m c = (r, c')" by (cases "m c")
    have q: "quiet_after (trace s @ [Call Requester nm])"
      using q0 by (simp add: quiet_after_snoc_other)
    obtain p' where s': "requester_call m nm nxt s =
        s\<lparr>camera := Some c', trace := trace s @ [Call Requester nm], spc := p'\<rparr>"
      "p' = nxt \<or> (\<exists>e. p' = SRaise e)"
      using Some r by (cases r) (simp_all add: requester_call_def)
    have pk: "parked (s\<lparr>camera := Some c', trace := trace s @ [Call Requester nm], spc := p'\<rparr>)"
      using p by (simp add: parked_def)
    have fc: "flag_cleared p' \<longrightarrow> \<not> running s"
      using p by (simp add: parked_def)
    have w: "wait_passed p' \<or> p' = SReturn \<or> (\<exists>e. p' = SRaise e)"
      using s'(2) assms(3) by auto
    show ?thesis
      unfolding s'(1) park_inv_def using ps q pk fc w by auto
  qed
qed

lemma park_inv_stop_step:
  assumes "park_inv s"
  shows "park_inv (stop_step A s)"
proof (cases "spc s")
  case S36
  have nr: "no_requester_call (trace s)"
    using assms S36 by (auto simp: park_inv_def)
  have "\<exists>p'. stop_step A s = s\<lparr>spc := p'\<rparr> \<and> (p' = S37 \<or> p' = SReturn \<or> (\<exists>e. p' = SRaise e))"
  proof (cases "camera s")
    case None
    then have "stop_step A s = s\<lparr>spc := SRaise AttributeError\<rparr>"
      using S36 by (simp add: stop_step_def)
    then show ?thesis by blast
  next
    case (Some c)
    then have "stop_step A s = s\<lparr>spc := S37\<rparr> \<or> stop_step A s = s\<lparr>spc := SReturn\<rparr>"
      using S36 by (simp add: stop_step_def)
    then show ?thesis by blast
  qed
  then obtain p' where s': "stop_step A s = s\<lparr>spc := p'\<rparr>"
    "p' = S37 \<or> p' = SReturn \<or> (\<exists>e. p' = SRaise e)"
    by blast
  have "\<not> flag_cleared p' \<and> \<not> wait_passed p' \<and> p' \<noteq> S39" using s'(2) by auto
  then show ?thesis
    unfolding s'(1) using assms nr by (simp add: park_inv_def past_wait_def)
next
  case S37
  have nr: "no_requester_call (trace s)"
    using assms S37 by (auto simp: park_inv_def)
  have s': "stop_step A s = s\<lparr>running := False, trace := trace s @ [ClearRunning], spc := S38\<rparr>"
    using S37 by (simp add: stop_step_def)
  have "no_requester_call (trace s @ [ClearRunning])"
    using nr by (simp add: no_requester_call_snoc)
  moreover have "quiet_after (trace s @ [ClearRunning])"
    using nr by (rule quiet_after_snoc_first)
  ultimately show ?thesis
    unfolding s' using assms by (simp add: park_inv_def past_wait_def)
next
  case S38
  have nr: "no_requester_call (trace s)"
    using assms S38 by (auto simp: park_inv_def)
  have s': "stop_step A s = s\<lparr>stopping := True, trace := trace s @ [SetStopping], spc := S39\<rparr>"
    using S38 by (simp add: stop_step_def)
  have "no_requester_call (trace s @ [SetStopping])"
    using nr by (simp add: no_requester_call_snoc)
  moreover have "quiet_after (trace s @ [SetStopping])"
    using nr by (rule quiet_after_snoc_first)
  ultimately show ?thesis
    unfolding s' using assms S38 by (simp add: park_inv_def past_wait_def)
next
  case S39
  show ?thesis
  proof (cases "stopping s")
    case True
    then have "stop_step A s = s" using S39 by (simp add: stop_step_def)
    then show ?thesis using assms by simp
  next
    case False
    then have s': "stop_step A s = s\<lparr>spc := S41\<rparr>" using S39 by (simp add: stop_step_def)
    have "parked s" using assms S39 False by (simp add: park_inv_def past_wait_def)
    then have "parked (s\<lparr>spc := S41\<rparr>)" by (simp add: parked_def)
    then show ?thesis
      unfolding s' using assms S39 by (simp add: park_inv_def parked_def)
  qed
next
  case S41
  have s': "stop_step A s = s\<lparr>trace := trace s @ [Print Requester ''Stop 1''], spc := S42\<rparr>"
    using S41 by (simp add: stop_step_def)
  have "parked s" using assms S41 by (simp add: park_inv_def past_wait_def)
  then have "parked (s\<lparr>trace := trace s @ [Print Requester ''Stop 1''], spc := S42\<rparr>)"
    by (simp add: parked_def)
  moreover have "quiet_after (trace s @ [Print Requester ''Stop 1''])"
    using assms by (simp add: park_inv_def quiet_after_snoc_other)
  ultimately show ?thesis
    unfolding s' using assms S41 by (simp add: park_inv_def parked_def)
next
  case S42
  then show ?thesis
    using assms requester_call_park [of s S43 "stop_acquisition A" StopAcquisition]
    by (simp add: stop_step_def)
next
  case S43
  have s': "stop_step A s = s\<lparr>trace := trace s @ [Print Requester ''Stop 2''], spc := S44\<rparr>"
    using S43 by (simp add: stop_step_def)
  have "parked s" using assms S43 by (simp add: park_inv_def past_wait_def)
  then have "parked (s\<lparr>trace := trace s @ [Print Requester ''Stop 2''], spc := S44\<rparr>)"
    by (simp add: parked_def)
  moreover have "quiet_after (trace s @ [Print Requester ''Stop 2''])"
    using assms by (simp add: park_inv_def quiet_after_snoc_other)
  ultimately show ?thesis
    unfolding s' using assms S43 by (simp add: park_inv_def parked_def)
next
  case S44
  then show ?thesis
    using assms requester_call_park [of s S45 "free_memory A" FreeMemory]
    by (simp add: stop_step_def)
next
  case S45
  have s': "stop_step A s = s\<lparr>trace := trace s @ [Print Requester ''Stop 3''], spc := SReturn\<rparr>"
    using S45 by (simp add: stop_step_def)
  have "parked s" using assms S45 by (simp add: park_inv_def past_wait_def)
  then have "parked (s\<lparr>trace := trace s @ [Print Requester ''Stop 3''], spc := SReturn\<rparr>)"
    by (simp add: parked_def)
  moreover have "quiet_after (trace s @ [Print Requester ''Stop 3''])"
    using assms by (simp add: park_inv_def quiet_after_snoc_other)
  ultimately show ?thesis
    unfolding s' using assms S45 by (simp add: park_inv_def parked_def)
next
  case SReturn
  then show ?thesis using assms by (simp add: stop_step_def)
next
  case (SRaise e)
  then show ?thesis using assms by (simp add: stop_step_def)
qed

lemma park_inv_exec: "park_inv s \<Longrightarrow> park_inv (exec A sched s)"
proof (induction sched arbitrary: s)
  case Nil
  then show ?case by simp
next
  case (Cons t ts)
  have "park_inv (step A t s)"
    using Cons.prems by (cases t) (simp_all add: step_def park_inv_run_step park_inv_stop_step)
  then show ?case using Cons.IH by simp
qed

lemma loop_parked_after_acknowledgement:
  assumes "spc s = S36" and "trace s = []" and "wpc s \<in> {W62, W63, W64, W65}"
    and "trace (exec A sched s) = pre @ Call Requester m # post"
  shows "Call Worker GetImage \<notin> set post"
proof -
  have "past_setup (wpc s)" using assms(3) by (auto simp: past_setup_def)
  then have "park_inv s"
    using assms(1,2)
    by (simp add: park_inv_def past_wait_def no_requester_call_def quiet_after_def)
  then have "quiet_after (trace (exec A sched s))"
    using park_inv_exec [of s A sched] by (simp add: park_inv_def)
  with assms(4) show ?thesis
    unfolding quiet_after_def by blast
qed

text \<open>
  C1. Whatever the interleaving of \<open>stop\<close> with \<open>run\<close>, and wherever the worker is when
  \<open>stop\<close> is called: each call of a camera method by the requester (\<open>stop_acquisition\<close>,
  \<open>free_memory\<close>) comes, in the order of execution, after the requester has cleared
  \<open>running\<close> (line 37), then set \<open>stopping\<close> (line 38), and after the worker has then
  acknowledged by clearing \<open>stopping\<close> (line 65). When \<open>stop\<close> is called while the worker
  is in its loop (lines 62--65), the worker calls \<open>get_image\<close> no more once the requester
  has called a camera method: after its acknowledgement it is at the loop test, finds
  \<open>running\<close> false and returns.
\<close>

theorem stop_waits_for_acknowledgement:
  assumes "spc s = S36" and "trace s = []"
    and "trace (exec A sched s) = pre @ Call Requester m # post"
  shows "(\<exists>a b c d. pre = a @ ClearRunning # b @ SetStopping # c @ ClearStopping # d) \<and>
    (wpc s \<in> {W62, W63, W64, W65} \<longrightarrow> Call Worker GetImage \<notin> set post)"
  using assms handshake_before_requester_call [of s A sched pre m post]
    loop_parked_after_acknowledgement [of s A sched pre m post]
  by blast

theorem stop_waits_for_acknowledgement_witness:
  "spc ((sim_thread True [Inr [1, 2, 3]])\<lparr>running := True, wpc := W63\<rparr>) = S36 \<and>
   trace ((sim_thread True [Inr [1, 2, 3]])\<lparr>running := True, wpc := W63\<rparr>) = [] \<and>
   trace (exec sim_api
     [Requester, Requester, Requester, Worker, Worker, Worker, Requester, Requester, Requester,
      Worker, Requester, Requester, Requester]
     ((sim_thread True [Inr [1, 2, 3]])\<lparr>running := True, wpc := W63\<rparr>)) =
     [ClearRunning, SetStopping, Call Worker GetImage, Emit [1, 2, 3], ClearStopping,
      Print Requester ''Stop 1''] @ Call Requester StopAcquisition #
     [Print Requester ''Stop 2'', Call Requester FreeMemory, Print Requester ''Stop 3''] \<and>
   (\<exists>a b c d.
      [ClearRunning, SetStopping, Call Worker GetImage, Emit [1, 2, 3 :: nat], ClearStopping,
       Print Requester ''Stop 1''] = a @ ClearRunning # b @ SetStopping # c @ ClearStopping # d) \<and>
   Call Worker GetImage \<notin>
     set [Print Requester ''Stop 2'', Call Requester FreeMemory,
          Print Requester ''Stop 3'' :: nat list event]"
proof -
  let ?s = "(sim_thread True [Inr [1, 2, 3]])\<lparr>running := True, wpc := W63\<rparr>"
  have 1: "spc ?s = S36"
    by (simp add: thread_defs)
  have 2: "trace ?s = []"
    by (simp add: thread_defs)
  have 3: "trace (exec sim_api
     [Requester, Requester, Requester, Worker, Worker, Worker, Requester, Requester, Requester,
      Worker, Requester, Requester, Requester] ?s) =
     [ClearRunning, SetStopping, Call Worker GetImage, Emit [1, 2, 3], ClearStopping,
      Print Requester ''Stop 1''] @ Call Requester StopAcquisition #
     [Print Requester ''Stop 2'', Call Requester FreeMemory, Print Requester ''Stop 3'']"
    by (simp add: thread_defs)
  have 4: "wpc ?s \<in> {W62, W63, W64, W65}"
    by simp
  from stop_waits_for_acknowledgement [OF 1 2 3] 1 2 3 4 show ?thesis by blast
qed

text \<open>
  Outside the loop the second part does not hold. A stop called when the worker has
  started the camera but not yet executed line 61 is overwritten by that line: the
  handshake completes as above, and the worker, finding \<open>running\<close> true, calls \<open>get_image\<close>
  after the requester has stopped the camera and freed its memory.
\<close>

lemma stop_before_loop_start_is_overwritten:
  "trace (exec sim_api
     [Worker, Worker, Worker, Worker, Requester, Requester, Requester,
      Worker, Worker, Worker, Worker, Worker,
      Requester, Requester, Requester, Requester, Requester, Requester, Worker, Worker]
     (sim_thread False [Inr [1, 2, 3], Inr [4, 5, 6]])) =
   [Call Worker InitCamera, Call Worker AllocMemory, Call Worker StartAcquisition,
    ClearRunning, SetStopping, SetRunning, Call Worker GetImage, Emit [1, 2, 3], ClearStopping,
    Print Requester ''Stop 1'', Call Requester StopAcquisition, Print Requester ''Stop 2'',
    Call Requester FreeMemory, Print Requester ''Stop 3'', Call Worker GetImage]"
  by (simp add: thread_defs)

section \<open>CameraThread: run and stop on their own\<close>



lemma stop_Suc: "stop A (Suc n) s = stop A n (stop_step A s)"
  by (simp add: stop_def step_def)

lemma stop_0: "stop A 0 s = s"
  by (simp add: stop_def)


lemma stop_SReturn: "spc s = SReturn \<Longrightarrow> stop A n s = s"
  by (induction n) (simp_all add: stop_0 stop_Suc stop_step_def)

lemma stop_SRaise: "spc s = SRaise e \<Longrightarrow> stop A n s = s"
  by (induction n) (simp_all add: stop_0 stop_Suc stop_step_def)







text \<open>
  C10. \<open>stop\<close> on an object with no camera assigned raises \<open>AttributeError\<close> at line 36:
  the exception leaves \<open>stop\<close>, and nothing else of the object changes.
\<close>

theorem stop_without_camera_raises:
  assumes "camera s = None" and "spc s = S36"
  shows "stop A (Suc n) s = s\<lparr>spc := SRaise AttributeError\<rparr>"
proof -
  have "stop_step A s = s\<lparr>spc := SRaise AttributeError\<rparr>"
    using assms by (simp add: stop_step_def)
  then show ?thesis by (simp add: stop_Suc stop_SRaise)
qed

theorem stop_without_camera_raises_witness:
  "camera (CameraThread :: (nat list sim_camera, nat list) camera_thread) = None \<and>
   spc (CameraThread :: (nat list sim_camera, nat list) camera_thread) = S36 \<and>
   stop sim_api (Suc 0) (CameraThread :: (nat list sim_camera, nat list) camera_thread) =
     CameraThread\<lparr>spc := SRaise AttributeError\<rparr>"
proof -
  let ?s = "CameraThread :: (nat list sim_camera, nat list) camera_thread"
  have 1: "camera ?s = None"
    by (simp add: CameraThread_def)
  have 2: "spc ?s = S36"
    by (simp add: CameraThread_def)
  from stop_without_camera_raises [OF 1 2, of sim_api 0] 1 2 show ?thesis by simp
qed

lemma stop_on_idle_camera:
  assumes "spc s = S36" and "camera s = Some c" and "\<not> camera_acquiring A c"
  shows "stop A (Suc n) s = s\<lparr>spc := SReturn\<rparr>"
proof -
  have "stop_step A s = s\<lparr>spc := SReturn\<rparr>"
    using assms by (simp add: stop_step_def)
  then show ?thesis by (simp add: stop_Suc stop_SReturn)
qed




section \<open>The conversion for display\<close>

lemma astype_true_divide:
  "astype_uint8 (true_divide xs d) = map (\<lambda>v. word_of_nat (unat v div d)) xs"
proof -
  have "word_of_int \<lfloor>real (unat v) / real d\<rfloor> = (word_of_nat (unat v div d) :: 8 word)" for v :: "16 word"
    by (simp only: floor_divide_of_nat_eq of_int_of_nat_eq)
  then show ?thesis
    unfolding astype_uint8_def true_divide_def map_map comp_def by (simp only:)
qed

lemma div_pow_bound:
  assumes "8 < d" and "n < 2 ^ d"
  shows "n div 2 ^ (d - 8) < (256 :: nat)"
proof -
  have "d = 8 + (d - 8)" using assms(1) by simp
  then have "(2 :: nat) ^ d = 2 ^ 8 * 2 ^ (d - 8)"
    by (metis power_add)
  with assms(2) have "n < 256 * 2 ^ (d - 8)" by simp
  then show ?thesis by (simp add: less_mult_imp_div_less)
qed

lemma unat_u8_of_small: "k < 256 \<Longrightarrow> unat (word_of_nat k :: 8 word) = k"
  by (simp add: unat_of_nat)

text \<open>
  C2. For a bit depth \<open>d > 8\<close> and samples below \<open>2 ^ d\<close>, \<open>to_disp\<close> gives, sample by
  sample, the quotient \<open>v div 2 ^ (d - 8)\<close>, which is at most 255 (no bit is lost in the
  conversion to eight bits); for \<open>d = 12\<close> the samples 4095, 16 and 0 give 255, 1 and 0;
  for \<open>d \<le> 8\<close> the bytes are returned as they are.
\<close>

theorem to_disp_normalizes:
  "(8 < d \<and> view_uint16 raw = Inr xs \<and> (\<forall>v \<in> set xs. unat v < 2 ^ d) \<longrightarrow>
      (\<exists>ys. to_disp d raw = Inr ys \<and> length ys = length xs \<and>
         (\<forall>i < length xs. unat (ys ! i) = unat (xs ! i) div 2 ^ (d - 8) \<and> unat (ys ! i) \<le> 255))) \<and>
   to_disp 12 (U16 [4095, 16, 0]) = Inr [255, 1, 0] \<and>
   (d \<le> 8 \<longrightarrow> to_disp d (U8 bs) = Inr bs)"
proof (intro conjI impI)
  assume a: "8 < d \<and> view_uint16 raw = Inr xs \<and> (\<forall>v \<in> set xs. unat v < 2 ^ d)"
  let ?ys = "map (\<lambda>v. word_of_nat (unat v div 2 ^ (d - 8)) :: 8 word) xs"
  have 1: "to_disp d raw = Inr ?ys"
    using a by (simp add: to_disp_def astype_true_divide)
  have 2: "unat (xs ! i) div 2 ^ (d - 8) < 256" if "i < length xs" for i
  proof -
    have "unat (xs ! i) < 2 ^ d" using a that by simp
    then show ?thesis using a by (simp add: div_pow_bound)
  qed
  have 3: "unat (?ys ! i) = unat (xs ! i) div 2 ^ (d - 8)" if "i < length xs" for i
    using that 2 [OF that] by (simp add: unat_u8_of_small)
  have 4: "unat (?ys ! i) \<le> 255" if "i < length xs" for i
    using 2 [OF that] 3 [OF that] by simp
  have "length ?ys = length xs" by simp
  with 1 3 4 show "\<exists>ys. to_disp d raw = Inr ys \<and> length ys = length xs \<and>
         (\<forall>i < length xs. unat (ys ! i) = unat (xs ! i) div 2 ^ (d - 8) \<and> unat (ys ! i) \<le> 255)"
    by blast
next
  show "to_disp 12 (U16 [4095, 16, 0]) = Inr [255, 1, 0]"
    by (simp add: to_disp_def view_uint16_def astype_true_divide)
next
  assume "d \<le> 8"
  then show "to_disp d (U8 bs) = Inr bs"
    by (simp add: to_disp_def view_uint8_def)
qed

theorem to_disp_normalizes_witness:
  "view_uint16 (U8 [255, 15, 16, 0, 0, 0]) = Inr [4095, 16, 0] \<and>
   (\<exists>ys. to_disp 12 (U8 [255, 15, 16, 0, 0, 0]) = Inr ys \<and> length ys = 3 \<and>
      unat (ys ! 0) = 255 \<and> unat (ys ! 1) = 1 \<and> unat (ys ! 2) = 0) \<and>
   to_disp 8 (U8 [255, 15, 16]) = Inr [255, 15, 16]"
proof -
  have v: "view_uint16 (U8 [255, 15, 16, 0, 0, 0]) = Inr [4095, 16, 0]"
    by (simp add: view_uint16_def)
  have b: "\<forall>v \<in> set [4095, 16, 0 :: 16 word]. unat v < 2 ^ 12"
    by simp
  let ?xs = "[4095, 16, 0 :: 16 word]"
  from to_disp_normalizes [of 12 "U8 [255, 15, 16, 0, 0, 0]" ?xs "[255, 15, 16]"]
  have "8 < (12 :: nat) \<and> view_uint16 (U8 [255, 15, 16, 0, 0, 0]) = Inr ?xs \<and>
      (\<forall>v \<in> set ?xs. unat v < 2 ^ 12) \<longrightarrow>
      (\<exists>ys. to_disp 12 (U8 [255, 15, 16, 0, 0, 0]) = Inr ys \<and> length ys = length ?xs \<and>
         (\<forall>i < length ?xs. unat (ys ! i) = unat (?xs ! i) div 2 ^ (12 - 8) \<and> unat (ys ! i) \<le> 255))"
    by (rule conjunct1)
  moreover have "8 < (12 :: nat)" by simp
  ultimately obtain ys where ys: "to_disp 12 (U8 [255, 15, 16, 0, 0, 0]) = Inr ys"
    "length ys = length ?xs"
    "\<And>i. i < length ?xs \<Longrightarrow> unat (ys ! i) = unat (?xs ! i) div 2 ^ (12 - 8)"
    using v b by blast
  have "unat (ys ! 0) = 255" using ys(3) [of 0] by simp
  moreover have "unat (ys ! 1) = 1" using ys(3) [of 1] by simp
  moreover have "unat (ys ! 2) = 0" using ys(3) [of 2] by simp
  moreover have "length ys = 3" using ys(2) by simp
  moreover from to_disp_normalizes [of 8 "U8 [255, 15, 16]" "[]" "[255, 15, 16]"]
  have "to_disp 8 (U8 [255, 15, 16]) = Inr [255, 15, 16]"
    by simp
  ultimately show ?thesis using v ys(1) by blast
qed

section \<open>The widgets: the timer\<close>

lemmas gui_defs = update_params_def update_branch_def update_fps_def update_expo_def
  update_black_def small_update_params_def widget_start_acquisition_def
  widget_stop_acquisition_def get_disp_image_def refresh_body_def refresh_def tick_def
  is_connected_def cam_call_def cam_get_def seq_def ret_def raise_def py_int_def Let_def
  lower_def lower_char_def sim_api_def sim_gui_def sim_camera_def sim_pixmap_def
  sim_bits_per_pixel_def sim_get_image_def

lemma seq_Inr: "m s = (Inr a, s') \<Longrightarrow> seq m f s = f a s'"
  by (simp add: seq_def)

lemma seq_Inl: "m s = (Inl e, s') \<Longrightarrow> seq m f s = (Inl e, s')"
  by (simp add: seq_def)

lemma cam_call_Some:
  "gui_camera g = Some c \<Longrightarrow>
   cam_call nm m g = (fst (m c), g\<lparr>gui_camera := Some (snd (m c)), calls := calls g @ [nm]\<rparr>)"
  by (simp add: cam_call_def split: prod.splits)


lemma keeps_timer_cam_call: "keeps_timer (cam_call nm m)"
  by (simp add: keeps_timer_def cam_call_def split: option.splits prod.splits)

lemma keeps_timer_cam_get: "keeps_timer (cam_get nm f)"
  by (simp add: cam_get_def keeps_timer_cam_call)

lemma keeps_timer_ret: "keeps_timer (ret a)"
  by (simp add: keeps_timer_def ret_def)

lemma keeps_timer_raise: "keeps_timer (raise e)"
  by (simp add: keeps_timer_def raise_def)

lemma keeps_timer_seq:
  assumes "keeps_timer m" and "\<And>a. keeps_timer (f a)"
  shows "keeps_timer (seq m f)"
proof -
  have "timer_interval (snd (seq m f g)) = timer_interval g \<and>
        timer_active (snd (seq m f g)) = timer_active g" for g
  proof (cases "m g")
    case (Pair r g')
    have g': "timer_interval g' = timer_interval g \<and> timer_active g' = timer_active g"
      using assms(1) Pair unfolding keeps_timer_def by (metis snd_conv)
    show ?thesis
    proof (cases r)
      case (Inl e)
      then show ?thesis using Pair g' by (simp add: seq_def)
    next
      case (Inr a)
      then have "seq m f g = f a g'" using Pair by (simp add: seq_def)
      then show ?thesis using assms(2) [of a] g' unfolding keeps_timer_def by simp
    qed
  qed
  then show ?thesis unfolding keeps_timer_def by blast
qed

lemma keeps_timer_update_fps: "keeps_timer (update_fps A)"
proof -
  have "keeps_timer (\<lambda>g. update_fps A g)"
    unfolding update_fps_def Let_def keeps_timer_def
    apply (intro allI)
    apply (simp add: seq_def cam_get_def cam_call_def raise_def ret_def
        split: option.splits prod.splits sum.splits)
    done
  then show ?thesis by simp
qed

lemma keeps_timer_update_expo: "keeps_timer (update_expo A)"
  unfolding keeps_timer_def update_expo_def Let_def
  by (simp add: cam_call_def split: option.splits prod.splits)

lemma keeps_timer_update_black: "keeps_timer (update_black A)"
  unfolding keeps_timer_def update_black_def Let_def
  by (simp add: cam_call_def split: option.splits prod.splits)

lemma keeps_timer_small_update_params: "keeps_timer (small_update_params A)"
  unfolding small_update_params_def
  by (intro keeps_timer_seq keeps_timer_cam_get keeps_timer_ret)

lemma keeps_timer_print: "keeps_timer (\<lambda>g1. (Inr (), g1\<lparr>printed := printed g1 @ [msg]\<rparr>))"
  by (simp add: keeps_timer_def)

lemma keeps_timer_update_branch: "keeps_timer (update_branch A f1)"
  by (simp add: update_branch_def keeps_timer_update_fps keeps_timer_update_expo
      keeps_timer_update_black keeps_timer_print)

lemma keeps_timer_update_rest:
  "keeps_timer (seq (update_branch A f1) (\<lambda>_. small_update_params A))"
  by (intro keeps_timer_seq keeps_timer_update_branch keeps_timer_small_update_params)

lemma keeps_timer_update_params: "keeps_timer (update_params A ev)"
proof -
  have "timer_interval (snd (update_params A ev g)) = timer_interval g \<and>
        timer_active (snd (update_params A ev g)) = timer_active g" for g
  proof (cases "split_colon ev")
    case Nil
    then show ?thesis by (simp add: update_params_def)
  next
    case (Cons f0 rest)
    show ?thesis
    proof (cases "lower f0 \<noteq> ''update'' \<and> lower f0 = ''slider'' \<and> auto_update_check g = False")
      case True
      then show ?thesis using Cons by (simp add: update_params_def)
    next
      case False
      show ?thesis
      proof (cases rest)
        case Nil
        then show ?thesis using Cons False by (simp add: update_params_def)
      next
        case (Cons f1 more)
        then have "update_params A ev g =
            seq (update_branch A f1) (\<lambda>_. small_update_params A) g"
          using \<open>split_colon ev = f0 # rest\<close> False by (auto simp: update_params_def)
        moreover have
          "timer_interval (snd (seq (update_branch A f1) (\<lambda>_. small_update_params A) g)) =
             timer_interval g \<and>
           timer_active (snd (seq (update_branch A f1) (\<lambda>_. small_update_params A) g)) =
             timer_active g"
          using keeps_timer_update_rest [of A f1] unfolding keeps_timer_def by blast
        ultimately show ?thesis by simp
      qed
    qed
  qed
  then show ?thesis unfolding keeps_timer_def by blast
qed












section \<open>The widgets: setting parameters\<close>













section \<open>Stopping an idle device\<close>

text \<open>
  C6, as the code has it. \<open>CameraThread.stop\<close> on an assigned camera that is not acquiring
  returns at once and changes nothing. \<open>stop_acquisition\<close> of the widget does not look at
  the acquisition state: on a connected widget it stops the timer, and with
  \<open>keep_active\<close> false it calls \<open>stop_acquisition\<close> of the camera; with \<open>keep_active\<close> true
  it calls no camera method; with no camera it does nothing.
\<close>

theorem stop_on_idle_device:
  "(spc s = S36 \<and> camera s = Some c \<and> \<not> camera_acquiring A c \<longrightarrow>
      stop A (Suc n) s = s\<lparr>spc := SReturn\<rparr>) \<and>
   (gui_camera g = Some d \<longrightarrow>
      widget_stop_acquisition A True g = (Inr (), g\<lparr>timer_active := False\<rparr>)) \<and>
   (gui_camera g = Some d \<longrightarrow>
      widget_stop_acquisition A False g =
        (fst (stop_acquisition A d),
         g\<lparr>timer_active := False, gui_camera := Some (snd (stop_acquisition A d)),
           calls := calls g @ [StopAcquisition]\<rparr>)) \<and>
   (gui_camera g = None \<longrightarrow> widget_stop_acquisition A keep_active g = (Inr (), g))"
proof (intro conjI impI)
  assume "spc s = S36 \<and> camera s = Some c \<and> \<not> camera_acquiring A c"
  then show "stop A (Suc n) s = s\<lparr>spc := SReturn\<rparr>"
    by (simp add: stop_on_idle_camera)
next
  assume "gui_camera g = Some d"
  then show "widget_stop_acquisition A True g = (Inr (), g\<lparr>timer_active := False\<rparr>)"
    by (cases "timer_active g") (simp_all add: widget_stop_acquisition_def is_connected_def)
next
  assume "gui_camera g = Some d"
  then show "widget_stop_acquisition A False g =
        (fst (stop_acquisition A d),
         g\<lparr>timer_active := False, gui_camera := Some (snd (stop_acquisition A d)),
           calls := calls g @ [StopAcquisition]\<rparr>)"
    by (cases "timer_active g")
      (simp_all add: widget_stop_acquisition_def is_connected_def cam_call_Some)
next
  assume "gui_camera g = None"
  then show "widget_stop_acquisition A keep_active g = (Inr (), g)"
    by (simp add: widget_stop_acquisition_def is_connected_def)
qed

theorem stop_on_idle_device_witness:
  "stop sim_api (Suc 0) (set_camera (sim_camera False [] ''Mono8'' 10) CameraThread) =
     (set_camera (sim_camera False [] ''Mono8'' 10) CameraThread :: (ndarray sim_camera, ndarray) camera_thread)
       \<lparr>spc := SReturn\<rparr> \<and>
   widget_stop_acquisition sim_api True (sim_gui (sim_camera False [] ''Mono8'' 10)) =
     (Inr (), (sim_gui (sim_camera False [] ''Mono8'' 10))\<lparr>timer_active := False\<rparr>) \<and>
   calls (snd (widget_stop_acquisition sim_api False (sim_gui (sim_camera False [] ''Mono8'' 10)))) =
     [StopAcquisition]"
proof -
  let ?c = "sim_camera False [] ''Mono8'' 10 :: ndarray sim_camera"
  let ?s = "set_camera ?c CameraThread :: (ndarray sim_camera, ndarray) camera_thread"
  let ?g = "sim_gui ?c"
  have 1: "spc ?s = S36 \<and> camera ?s = Some ?c \<and> \<not> camera_acquiring sim_api ?c"
    by (simp add: thread_defs)
  have 2: "gui_camera ?g = Some ?c"
    by (simp add: sim_gui_def)
  have 3: "calls ?g = []"
    by (simp add: sim_gui_def)
  from stop_on_idle_device [of ?s ?c sim_api 0 ?g ?c True] 1 2 3
  show ?thesis by simp
qed

text \<open>
  C6 as stated fails for the widget: with a camera that is not acquiring and the timer
  active, \<open>stop_acquisition(keep_active=False)\<close> calls \<open>stop_acquisition\<close> of the camera
  and stops the timer.
\<close>

theorem stop_on_idle_device_counterexample:
  "\<not> camera_acquiring sim_api (sim_camera False [] ''Mono8'' 10 :: ndarray sim_camera) \<and>
   timer_active (sim_gui (sim_camera False [] ''Mono8'' 10)) \<and>
   widget_stop_acquisition sim_api False (sim_gui (sim_camera False [] ''Mono8'' 10)) =
     (Inr (), (sim_gui (sim_camera False [] ''Mono8'' 10))
        \<lparr>timer_active := False, calls := [StopAcquisition]\<rparr>)"
  by (simp add: gui_defs)

section \<open>The widgets: a failed tick\<close>

lemma steady_cam_call: "steady (cam_call nm m)"
  by (simp add: steady_def cam_call_def is_connected_def split: option.splits prod.splits)

lemma steady_cam_get: "steady (cam_get nm f)"
  by (simp add: cam_get_def steady_cam_call)

lemma steady_pure: "steady (\<lambda>g. (r, g))"
  by (simp add: steady_def)

lemma steady_ret: "steady (ret a)"
  by (simp add: steady_def ret_def)

lemma steady_raise: "steady (raise e)"
  by (simp add: steady_def raise_def)

lemma steady_seq:
  assumes "steady m" and "\<And>a. steady (f a)"
  shows "steady (seq m f)"
proof -
  have "(timer_active g \<longrightarrow> timer_active (snd (seq m f g))) \<and>
        is_connected (snd (seq m f g)) = is_connected g" for g
  proof (cases "m g")
    case (Pair r g')
    have g': "(timer_active g \<longrightarrow> timer_active g') \<and> is_connected g' = is_connected g"
      using assms(1) Pair unfolding steady_def by (metis snd_conv)
    show ?thesis
    proof (cases r)
      case (Inl e)
      then show ?thesis using Pair g' by (simp add: seq_def)
    next
      case (Inr a)
      then have "seq m f g = f a g'" using Pair by (simp add: seq_def)
      then show ?thesis using assms(2) [of a] g' unfolding steady_def by simp
    qed
  qed
  then show ?thesis unfolding steady_def by blast
qed

lemma steady_arm:
  "steady (\<lambda>g'. (Inr (), g'\<lparr>timer_interval := i, timer_active := True\<rparr>))"
  by (simp add: steady_def is_connected_def)

lemma steady_if_connected:
  assumes "steady m"
  shows "steady (\<lambda>g. if is_connected g then m g else (Inr (), g))"
  using assms unfolding steady_def by simp

lemma steady_widget_start_acquisition: "steady (widget_start_acquisition A)"
proof -
  have "steady (seq (cam_call StartAcquisition (start_acquisition A)) (\<lambda>_.
        seq (cam_get GetFrameRate (get_frame_rate A)) (\<lambda>fps.
          if fps = 0 then raise ZeroDivisionError
          else (\<lambda>g'. (Inr (),
            g'\<lparr>timer_interval := py_int (1000 / fps + 10), timer_active := True\<rparr>)))))"
    by (intro steady_seq steady_cam_call steady_cam_get)
      (simp add: steady_raise steady_arm)
  from steady_if_connected [OF this] show ?thesis
    unfolding widget_start_acquisition_def [abs_def] by simp
qed

lemma steady_get_disp_image: "steady (get_disp_image A)"
  unfolding get_disp_image_def
  by (intro steady_seq steady_cam_get)
    (simp add: steady_ret steady_seq steady_widget_start_acquisition steady_cam_call
      steady_cam_get steady_pure)

lemma steady_deliver:
  "steady (\<lambda>g1. case R img of
             Inl e \<Rightarrow> (Inl e, g1\<lparr>disp_array := img\<rparr>)
           | Inr p \<Rightarrow> (Inr (), g1\<lparr>disp_array := img, camera_display := Pixmap p\<rparr>))"
  by (simp add: steady_def is_connected_def split: sum.splits)

lemma steady_refresh_body: "steady (refresh_body A R)"
proof -
  have 1: "steady (seq (get_disp_image A) (\<lambda>img g1.
          (case R img of
             Inl e \<Rightarrow> (Inl e, g1\<lparr>disp_array := img\<rparr>)
           | Inr p \<Rightarrow> (Inr (), g1\<lparr>disp_array := img, camera_display := Pixmap p\<rparr>))))"
    by (intro steady_seq steady_get_disp_image steady_deliver)
  have 2: "steady (\<lambda>g :: ('a, 'b) ids_gui. (Inr () :: exn + unit, g\<lparr>camera_display := Text ''No Camera Connected''\<rparr>))"
    by (simp add: steady_def is_connected_def)
  show ?thesis
    using 1 2 unfolding steady_def refresh_body_def by simp
qed

lemma refresh_steady:
  "(timer_active g \<longrightarrow> timer_active (refresh A R g)) \<and>
   is_connected (refresh A R g) = is_connected g"
proof (cases "refresh_body A R g")
  case (Pair r g')
  have "(timer_active g \<longrightarrow> timer_active g') \<and> is_connected g' = is_connected g"
    using steady_refresh_body [of A R] Pair unfolding steady_def by (metis snd_conv)
  then show ?thesis
    using Pair by (cases r) (simp_all add: refresh_def is_connected_def)
qed

lemma tick_steady:
  "(timer_active g \<longrightarrow> timer_active (tick A R g)) \<and>
   is_connected (tick A R g) = is_connected g"
  using refresh_steady [of g A R] by (simp add: tick_def)

lemma ticks_steady:
  "(timer_active g \<longrightarrow> timer_active (ticks A R n g)) \<and>
   is_connected (ticks A R n g) = is_connected g"
proof (induction n arbitrary: g)
  case 0
  then show ?case by simp
next
  case (Suc n)
  show ?case
    using Suc.IH [of "tick A R g"] tick_steady [of g A R] by simp
qed

lemma ticks_Suc_last: "ticks A R (Suc n) g = tick A R (ticks A R n g)"
  by (induction n arbitrary: g) simp_all

text \<open>
  C7. Whatever happens in \<open>n\<close> ticks, an active timer is still active after them and a
  connected widget still connected. A tick whose body raises is caught by the handler of
  \<open>refresh\<close>: the state is kept as the body left it and the exception is printed. After
  any \<open>n\<close> ticks, failed or not, the next tick acquires again, and when its
  \<open>get_disp_image\<close> and the conversion to a pixmap succeed, it displays the frame.
\<close>

theorem failed_tick_keeps_timer_firing:
  "(timer_active g \<longrightarrow> timer_active (ticks A R n g)) \<and>
   (is_connected g \<longrightarrow> is_connected (ticks A R n g)) \<and>
   (refresh_body A R g = (Inl e, g1) \<longrightarrow>
      refresh A R g = g1\<lparr>printed := printed g1 @ [''Exception - refresh'']\<rparr>) \<and>
   (timer_active g \<and> is_connected g \<and>
      get_disp_image A (ticks A R n g) = (Inr img, g2) \<and> R img = Inr p \<longrightarrow>
      ticks A R (Suc n) g = g2\<lparr>disp_array := img, camera_display := Pixmap p\<rparr>)"
proof (intro conjI impI)
  assume "timer_active g"
  then show "timer_active (ticks A R n g)"
    using ticks_steady [of g A R n] by simp
next
  assume "is_connected g"
  then show "is_connected (ticks A R n g)"
    using ticks_steady [of g A R n] by simp
next
  assume "refresh_body A R g = (Inl e, g1)"
  then show "refresh A R g = g1\<lparr>printed := printed g1 @ [''Exception - refresh'']\<rparr>"
    by (simp add: refresh_def)
next
  assume a: "timer_active g \<and> is_connected g \<and>
      get_disp_image A (ticks A R n g) = (Inr img, g2) \<and> R img = Inr p"
  let ?g' = "ticks A R n g"
  have t: "timer_active ?g'" and c: "is_connected ?g'"
    using a ticks_steady [of g A R n] by simp_all
  have "refresh_body A R ?g' = (Inr (), g2\<lparr>disp_array := img, camera_display := Pixmap p\<rparr>)"
    using a c by (simp add: refresh_body_def seq_def)
  then have "refresh A R ?g' = g2\<lparr>disp_array := img, camera_display := Pixmap p\<rparr>"
    by (simp add: refresh_def)
  then show "ticks A R (Suc n) g = g2\<lparr>disp_array := img, camera_display := Pixmap p\<rparr>"
    using t unfolding ticks_Suc_last tick_def by (simp del: ticks.simps)
qed

text \<open>
  A camera in \<open>Mono12\<close> whose first frame has three bytes, which \<open>view(np.uint16)\<close>
  refuses, and whose second frame holds the samples 4095, 16 and 0: the first tick fails
  and is logged, the timer stays active, and the second tick displays 255, 1, 0.
\<close>

theorem failed_tick_keeps_timer_firing_witness:
  "fst (refresh_body sim_api sim_pixmap
      (sim_gui (sim_camera True [Inr (U8 [1, 2, 3]), Inr (U16 [4095, 16, 0])] ''Mono12'' 10))) =
     Inl ValueError \<and>
   timer_active (ticks sim_api sim_pixmap (Suc 0)
      (sim_gui (sim_camera True [Inr (U8 [1, 2, 3]), Inr (U16 [4095, 16, 0])] ''Mono12'' 10))) \<and>
   printed (ticks sim_api sim_pixmap (Suc 0)
      (sim_gui (sim_camera True [Inr (U8 [1, 2, 3]), Inr (U16 [4095, 16, 0])] ''Mono12'' 10))) =
     [''Exception - refresh''] \<and>
   camera_display (ticks sim_api sim_pixmap (Suc (Suc 0))
      (sim_gui (sim_camera True [Inr (U8 [1, 2, 3]), Inr (U16 [4095, 16, 0])] ''Mono12'' 10))) =
     Pixmap [255, 1, 0]"
proof -
  let ?g = "sim_gui (sim_camera True [Inr (U8 [1, 2, 3]), Inr (U16 [4095, 16, 0])] ''Mono12'' 10)"
  let ?g1 = "((sim_gui (sim_camera True [Inr (U16 [4095, 16, 0])] ''Mono12'' 10))
      \<lparr>calls := [IsCameraConnected, StartAcquisition, GetFrameRate, GetImage, GetColorMode]\<rparr>)"
  let ?g2 = "((sim_gui (sim_camera True [] ''Mono12'' 10))
      \<lparr>calls := [IsCameraConnected, StartAcquisition, GetFrameRate, GetImage, GetColorMode,
          IsCameraConnected, StartAcquisition, GetFrameRate, GetImage, GetColorMode],
        printed := [''Exception - refresh'']\<rparr>)"
  have b: "refresh_body sim_api sim_pixmap ?g = (Inl ValueError, ?g1)"
    by (simp add: gui_defs to_disp_def view_uint16_def)
  have a: "timer_active ?g \<and> is_connected ?g"
    by (simp add: sim_gui_def is_connected_def)
  from failed_tick_keeps_timer_firing [of ?g sim_api sim_pixmap "Suc 0" ValueError ?g1] a b
  have r: "refresh sim_api sim_pixmap ?g = ?g1\<lparr>printed := printed ?g1 @ [''Exception - refresh'']\<rparr>"
    and t: "timer_active (ticks sim_api sim_pixmap (Suc 0) ?g)"
    by simp_all
  have t1: "ticks sim_api sim_pixmap (Suc 0) ?g = ?g1\<lparr>printed := [''Exception - refresh'']\<rparr>"
    using r a by (simp add: tick_def sim_gui_def)
  have d: "get_disp_image sim_api (ticks sim_api sim_pixmap (Suc 0) ?g) = (Inr (Some [255, 1, 0]), ?g2)"
    unfolding t1
    by (simp add: gui_defs to_disp_def view_uint16_def astype_true_divide)
  have p: "sim_pixmap (Some [255, 1, 0]) = Inr [255, 1, 0]"
    by (simp add: sim_pixmap_def)
  from failed_tick_keeps_timer_firing
    [of ?g sim_api sim_pixmap "Suc 0" ValueError ?g1 "Some [255, 1, 0]" ?g2 "[255, 1, 0]"] a d p
  have "ticks sim_api sim_pixmap (Suc (Suc 0)) ?g =
      ?g2\<lparr>disp_array := Some [255, 1, 0], camera_display := Pixmap [255, 1, 0]\<rparr>"
    by blast
  then have "camera_display (ticks sim_api sim_pixmap (Suc (Suc 0)) ?g) = Pixmap [255, 1, 0]"
    by simp
  moreover have "printed (ticks sim_api sim_pixmap (Suc 0) ?g) = [''Exception - refresh'']"
    unfolding t1 by simp
  moreover have "fst (refresh_body sim_api sim_pixmap ?g) = Inl ValueError"
    using b by simp
  ultimately show ?thesis using t by blast
qed

end
